theory Spec2Isabelle
  imports Main
begin

section \<open>Data model\<close>

text \<open>
  Prop values as far as the hook inspects them: \<open>noLayout\<close> is tested for
  truthiness, \<open>noMenu\<close> is compared with \<open>true\<close> by \<open>!==\<close>, and
  \<open>name\<close>, \<open>label\<close>, \<open>icon\<close> are copied into menu records.
\<close>

datatype jsval = Undefined | Bool bool | Str string

fun truthy :: "jsval \<Rightarrow> bool" where
  "truthy Undefined = False"
| "truthy (Bool b) = b"
| "truthy (Str s) = (s \<noteq> [])"

text \<open>
  The props of an element without their \<open>children\<close> key, as an association
  list. \<open>const { children, ...currPathInfo } = categoryElement.props\<close> gives
  exactly this part of a Category's props, so a path segment has the same type.
\<close>

type_synonym props = "(string \<times> jsval) list"
type_synonym TushanCategoryPathInfo = props

text \<open>
  The \<open>type\<close> of a React element: the four constructors the classifier
  compares with by identity, and any other component or host tag.
\<close>

datatype elemType = Fragment | Category | CustomRoute | Resource | OtherType string

text \<open>
  A \<open>ReactNode\<close>: something that is not an element (null, undefined, a
  boolean, a string, a number), an array of nodes, or an element with its type,
  its props other than children, and \<open>props.children\<close>.
\<close>

datatype ReactNode =
    NonElement
  | NodeArray "ReactNode list"
  | Element elemType props ReactNode

fun get_prop :: "props \<Rightarrow> string \<Rightarrow> jsval" where
  "get_prop ps k = (case map_of ps k of None \<Rightarrow> Undefined | Some v \<Rightarrow> v)"

fun elem_type :: "ReactNode \<Rightarrow> elemType option" where
  "elem_type (Element t ps ch) = Some t"
| "elem_type _ = None"

fun elem_prop :: "ReactNode \<Rightarrow> string \<Rightarrow> jsval" where
  "elem_prop (Element t ps ch) k = get_prop ps k"
| "elem_prop _ k = Undefined"

text \<open>A classified entry \<open>{ path, element }\<close>.\<close>

record entry =
  path :: "TushanCategoryPathInfo list"
  element :: ReactNode

record RoutesAndResources =
  customRoutesWithLayout :: "entry list"
  customRoutesWithoutLayout :: "ReactNode list"
  resources :: "entry list"
  components :: "ReactNode list"

definition no_routes :: RoutesAndResources where
  "no_routes = \<lparr> customRoutesWithLayout = [], customRoutesWithoutLayout = [],
                 resources = [], components = [] \<rparr>"

text \<open>
  \<open>xs.push(...r.xs)\<close> on each of the four local arrays: the lists of \<open>r\<close>
  are appended to the accumulated ones.
\<close>

definition push_all :: "RoutesAndResources \<Rightarrow> RoutesAndResources \<Rightarrow> RoutesAndResources" where
  "push_all acc r =
     \<lparr> customRoutesWithLayout = customRoutesWithLayout acc @ customRoutesWithLayout r,
       customRoutesWithoutLayout = customRoutesWithoutLayout acc @ customRoutesWithoutLayout r,
       resources = resources acc @ resources r,
       components = components acc @ components r \<rparr>"

section \<open>The tree classifier\<close>

text \<open>
  \<open>getRoutesAndResourceFromNodes children path\<close>. \<open>Children.forEach\<close> calls
  the callback on every node of \<open>children\<close>, arrays flattened, in order
  (\<open>forEach_children\<close>); the callback returns at once on a node that is not an
  element. On an element the four tests on \<open>element.type\<close> run one after the
  other and the element is then pushed to \<open>components\<close>. The four arrays start
  empty in every call. The callback on one element pushes to the arrays of the
  enclosing call; here it is the classification of that element alone, pushed
  to the accumulated arrays by \<open>forEach_children\<close>.
\<close>

fun getRoutesAndResourceFromNodes ::
    "ReactNode \<Rightarrow> TushanCategoryPathInfo list \<Rightarrow> RoutesAndResources"
  and forEach_children ::
    "ReactNode list \<Rightarrow> TushanCategoryPathInfo list \<Rightarrow> RoutesAndResources \<Rightarrow> RoutesAndResources"
where
  "getRoutesAndResourceFromNodes NonElement pth = no_routes"
| "getRoutesAndResourceFromNodes (NodeArray ns) pth = forEach_children ns pth no_routes"
| "getRoutesAndResourceFromNodes (Element t ps ch) pth =
     (let acc0 = no_routes;
          acc1 = (if t = Fragment
                  then push_all acc0 (getRoutesAndResourceFromNodes ch pth)
                  else acc0);
          acc2 = (if t = Category
                  then push_all acc1 (getRoutesAndResourceFromNodes ch (pth @ [ps]))
                  else acc1);
          acc3 = (if t = CustomRoute
                  then (if truthy (get_prop ps ''noLayout'')
                        then acc2 \<lparr> customRoutesWithoutLayout :=
                                      customRoutesWithoutLayout acc2 @ [Element t ps ch] \<rparr>
                        else acc2 \<lparr> customRoutesWithLayout :=
                                      customRoutesWithLayout acc2
                                        @ [\<lparr> path = pth, element = Element t ps ch \<rparr>] \<rparr>)
                  else acc2);
          acc4 = (if t = Resource
                  then acc3 \<lparr> resources :=
                                resources acc3 @ [\<lparr> path = pth, element = Element t ps ch \<rparr>] \<rparr>
                  else acc3)
      in acc4 \<lparr> components := components acc4 @ [Element t ps ch] \<rparr>)"
| "forEach_children [] pth acc = acc"
| "forEach_children (n # ns) pth acc =
     forEach_children ns pth (push_all acc (getRoutesAndResourceFromNodes n pth))"


section \<open>The traversal in the words of the specification\<close>

text \<open>
  The elements the traversal visits, each with the segments of the Categories
  that enclose it, outermost first: an array contributes the visits of its
  members in order, a Fragment those of its children with the same segments, a
  Category those of its children with its own props (children excluded) put in
  front, and every element, wrapper or not, is itself visited with no segment
  of its own, after what lies below it.
\<close>

fun visits :: "ReactNode \<Rightarrow> (TushanCategoryPathInfo list \<times> ReactNode) list" where
  "visits NonElement = []"
| "visits (NodeArray ns) = concat (map visits ns)"
| "visits (Element t ps ch) =
     (if t = Fragment then visits ch
      else if t = Category then map (\<lambda>(segs, e). (ps # segs, e)) (visits ch)
      else []) @ [([], Element t ps ch)]"

fun visited_elements :: "ReactNode \<Rightarrow> ReactNode list" where
  "visited_elements NonElement = []"
| "visited_elements (NodeArray ns) = concat (map visited_elements ns)"
| "visited_elements (Element t ps ch) =
     (if t = Fragment \<or> t = Category then visited_elements ch else []) @ [Element t ps ch]"

definition is_resource :: "ReactNode \<Rightarrow> bool" where
  "is_resource e = (elem_type e = Some Resource)"

definition is_route_with_layout :: "ReactNode \<Rightarrow> bool" where
  "is_route_with_layout e =
     (elem_type e = Some CustomRoute \<and> \<not> truthy (elem_prop e ''noLayout''))"

definition is_route_without_layout :: "ReactNode \<Rightarrow> bool" where
  "is_route_without_layout e =
     (elem_type e = Some CustomRoute \<and> truthy (elem_prop e ''noLayout''))"

text \<open>
  The entries expected from a list of visits: for each visited element that
  satisfies \<open>P\<close>, the starting path followed by the segments of its enclosing
  Categories, paired with the element.
\<close>

definition entries_at ::
    "TushanCategoryPathInfo list \<Rightarrow> (ReactNode \<Rightarrow> bool)
       \<Rightarrow> (TushanCategoryPathInfo list \<times> ReactNode) list \<Rightarrow> entry list" where
  "entries_at pth P vs =
     map (\<lambda>(segs, e). \<lparr> path = pth @ segs, element = e \<rparr>) (filter (\<lambda>(segs, e). P e) vs)"

definition classified ::
    "TushanCategoryPathInfo list \<Rightarrow> (TushanCategoryPathInfo list \<times> ReactNode) list
       \<Rightarrow> RoutesAndResources" where
  "classified pth vs =
     \<lparr> customRoutesWithLayout = entries_at pth is_route_with_layout vs,
       customRoutesWithoutLayout = filter is_route_without_layout (map snd vs),
       resources = entries_at pth is_resource vs,
       components = map snd vs \<rparr>"

section \<open>Occurrences of elements in the tree\<close>

text \<open>
  A position names one occurrence of a node: the steps from the root, each into
  the \<open>i\<close>-th member of an array or into the children of an element.
  \<open>node_at\<close> follows the steps and, like the walk, enters the children of
  Fragments and Categories only.
\<close>

datatype step = Member nat | Child

fun node_at :: "ReactNode \<Rightarrow> step list \<Rightarrow> ReactNode option" where
  "node_at n [] = Some n"
| "node_at (NodeArray ns) (Member i # p) = (if i < length ns then node_at (ns ! i) p else None)"
| "node_at (Element t ps ch) (Child # p) =
     (if t = Fragment \<or> t = Category then node_at ch p else None)"
| "node_at _ _ = None"

fun is_element :: "ReactNode option \<Rightarrow> bool" where
  "is_element (Some (Element t ps ch)) = True"
| "is_element _ = False"

text \<open>
  The positions of the elements the walk visits, in the order in which it is
  done with them: the members of an array from first to last, and what lies
  below a Fragment or Category before the wrapper itself.
\<close>

fun visited_positions :: "ReactNode \<Rightarrow> step list list"
  and visited_positions_from :: "nat \<Rightarrow> ReactNode list \<Rightarrow> step list list"
where
  "visited_positions NonElement = []"
| "visited_positions (NodeArray ns) = visited_positions_from 0 ns"
| "visited_positions (Element t ps ch) =
     (if t = Fragment \<or> t = Category then map ((#) Child) (visited_positions ch) else []) @ [[]]"
| "visited_positions_from i [] = []"
| "visited_positions_from i (m # ms) =
     map ((#) (Member i)) (visited_positions m) @ visited_positions_from (Suc i) ms"

section \<open>The classifier with path arrays held by reference\<close>

text \<open>
  In the source \<open>path\<close> is an array passed by reference, and every entry
  \<open>{ path, element }\<close> holds that reference. The heap is the list of the
  path arrays allocated so far, an address is an index into it. A Category
  evaluates \<open>[...path, currPathInfo]\<close>: it reads the array at \<open>path\<close> and
  allocates a new one. Nothing in the function writes to an array.
\<close>

type_synonym addr = nat
type_synonym heap = "TushanCategoryPathInfo list list"

record entry_ref =
  path_ref :: addr
  element_ref :: ReactNode

record RoutesAndResources_ref =
  customRoutesWithLayout_ref :: "entry_ref list"
  customRoutesWithoutLayout_ref :: "ReactNode list"
  resources_ref :: "entry_ref list"
  components_ref :: "ReactNode list"

definition no_routes_ref :: RoutesAndResources_ref where
  "no_routes_ref = \<lparr> customRoutesWithLayout_ref = [], customRoutesWithoutLayout_ref = [],
                     resources_ref = [], components_ref = [] \<rparr>"

definition push_all_ref ::
    "RoutesAndResources_ref \<Rightarrow> RoutesAndResources_ref \<Rightarrow> RoutesAndResources_ref" where
  "push_all_ref acc r =
     \<lparr> customRoutesWithLayout_ref = customRoutesWithLayout_ref acc @ customRoutesWithLayout_ref r,
       customRoutesWithoutLayout_ref =
         customRoutesWithoutLayout_ref acc @ customRoutesWithoutLayout_ref r,
       resources_ref = resources_ref acc @ resources_ref r,
       components_ref = components_ref acc @ components_ref r \<rparr>"

fun getRoutesAndResourceFromNodes_heap ::
    "ReactNode \<Rightarrow> addr \<Rightarrow> heap \<Rightarrow> RoutesAndResources_ref \<times> heap"
  and forEach_children_heap ::
    "ReactNode list \<Rightarrow> addr \<Rightarrow> RoutesAndResources_ref \<Rightarrow> heap \<Rightarrow> RoutesAndResources_ref \<times> heap"
where
  "getRoutesAndResourceFromNodes_heap NonElement a h = (no_routes_ref, h)"
| "getRoutesAndResourceFromNodes_heap (NodeArray ns) a h =
     forEach_children_heap ns a no_routes_ref h"
| "getRoutesAndResourceFromNodes_heap (Element t ps ch) a h =
     (let acc0 = no_routes_ref;
          (acc1, h1) = (if t = Fragment
                        then (case getRoutesAndResourceFromNodes_heap ch a h of
                                (r, h') \<Rightarrow> (push_all_ref acc0 r, h'))
                        else (acc0, h));
          (acc2, h2) = (if t = Category
                        then (case getRoutesAndResourceFromNodes_heap ch
                                     (length h1) (h1 @ [h1 ! a @ [ps]]) of
                                (r, h') \<Rightarrow> (push_all_ref acc1 r, h'))
                        else (acc1, h1));
          acc3 = (if t = CustomRoute
                  then (if truthy (get_prop ps ''noLayout'')
                        then acc2 \<lparr> customRoutesWithoutLayout_ref :=
                                      customRoutesWithoutLayout_ref acc2 @ [Element t ps ch] \<rparr>
                        else acc2 \<lparr> customRoutesWithLayout_ref :=
                                      customRoutesWithLayout_ref acc2
                                        @ [\<lparr> path_ref = a, element_ref = Element t ps ch \<rparr>] \<rparr>)
                  else acc2);
          acc4 = (if t = Resource
                  then acc3 \<lparr> resources_ref :=
                                resources_ref acc3
                                  @ [\<lparr> path_ref = a, element_ref = Element t ps ch \<rparr>] \<rparr>
                  else acc3)
      in (acc4 \<lparr> components_ref := components_ref acc4 @ [Element t ps ch] \<rparr>, h2))"
| "forEach_children_heap [] a acc h = (acc, h)"
| "forEach_children_heap (n # ns) a acc h =
     (case getRoutesAndResourceFromNodes_heap n a h of
        (r, h') \<Rightarrow> forEach_children_heap ns a (push_all_ref acc r) h')"

text \<open>Reading the path arrays of a result off the heap.\<close>

definition deref_entry :: "heap \<Rightarrow> entry_ref \<Rightarrow> entry" where
  "deref_entry h r = \<lparr> path = h ! path_ref r, element = element_ref r \<rparr>"

definition deref :: "heap \<Rightarrow> RoutesAndResources_ref \<Rightarrow> RoutesAndResources" where
  "deref h r =
     \<lparr> customRoutesWithLayout = map (deref_entry h) (customRoutesWithLayout_ref r),
       customRoutesWithoutLayout = customRoutesWithoutLayout_ref r,
       resources = map (deref_entry h) (resources_ref r),
       components = components_ref r \<rparr>"

text \<open>Every path address held by a result is allocated in the heap.\<close>

definition refs_ok :: "heap \<Rightarrow> RoutesAndResources_ref \<Rightarrow> bool" where
  "refs_ok h r =
     (\<forall>e \<in> set (customRoutesWithLayout_ref r) \<union> set (resources_ref r). path_ref e < length h)"

section \<open>The menu registrar\<close>

text \<open>The record \<open>{ key, label, icon }\<close> handed to \<open>addMenu\<close>.\<close>

record menuRecord =
  key :: jsval
  label :: jsval
  icon :: jsval

type_synonym menuStore = "jsval \<rightharpoonup> (menuRecord \<times> TushanCategoryPathInfo list)"

text \<open>
  Modelled from the spec: \<open>addMenu\<close> of the menu store (store/menu), which is
  not among the sources. The store maps a key to its record, registered at a
  path; adding a record under a key that is present overwrites it.
\<close>

definition addMenu :: "menuRecord \<Rightarrow> TushanCategoryPathInfo list \<Rightarrow> menuStore \<Rightarrow> menuStore" where
  "addMenu m pth s = s(key m \<mapsto> (m, pth))"

text \<open>
  Modelled from the spec: \<open>removeMenu\<close> of the menu store (store/menu), which
  is not among the sources. It removes the record stored under the key.
\<close>

definition removeMenu :: "jsval \<Rightarrow> menuStore \<Rightarrow> menuStore" where
  "removeMenu k s = s(k := None)"

definition menu_of :: "entry \<Rightarrow> menuRecord" where
  "menu_of route = \<lparr> key = elem_prop (element route) ''name'',
                      label = elem_prop (element route) ''label'',
                      icon = elem_prop (element route) ''icon'' \<rparr>"

text \<open>
  The body of the callback of \<open>useRegisterMenu\<close> up to its \<open>return\<close>: it
  filters the routes, adds one menu record per filtered route, in order, and
  returns the cleanup, a closure over \<open>filteredRoutes\<close>. The second component
  is that captured list.
\<close>

definition useRegisterMenu_effect ::
    "entry list \<Rightarrow> (entry \<Rightarrow> bool) \<Rightarrow> menuStore \<Rightarrow> menuStore \<times> entry list" where
  "useRegisterMenu_effect routes filterFn s =
     (let filteredRoutes = filter filterFn routes
      in (fold (\<lambda>route. addMenu (menu_of route) (path route)) filteredRoutes s,
          filteredRoutes))"

text \<open>
  The own properties of an entry \<open>{ path, element }\<close>; reading any other
  property of it gives \<open>undefined\<close>, here \<open>None\<close>.
\<close>

datatype entry_field = PathField "TushanCategoryPathInfo list" | ElementField ReactNode

definition entry_get :: "entry \<Rightarrow> string \<Rightarrow> entry_field option" where
  "entry_get route k =
     (if k = ''path'' then Some (PathField (path route))
      else if k = ''element'' then Some (ElementField (element route))
      else None)"

datatype error = TypeError

text \<open>
  \<open>route.props.name\<close>, the argument of \<open>removeMenu\<close> in the cleanup: reading
  \<open>name\<close> off \<open>undefined\<close> throws a TypeError. A path array and a React
  element have no property \<open>name\<close> of their own.
\<close>

definition route_props_name :: "entry \<Rightarrow> error + jsval" where
  "route_props_name route =
     (case entry_get route ''props'' of
        None \<Rightarrow> Inl TypeError
      | Some f \<Rightarrow> Inr Undefined)"

text \<open>
  The cleanup returned by the callback: \<open>filteredRoutes.forEach\<close> calling
  \<open>removeMenu(route.props.name)\<close>. An exception ends the loop and leaves the
  store as it is at that moment.
\<close>

fun useRegisterMenu_cleanup :: "entry list \<Rightarrow> menuStore \<Rightarrow> error option \<times> menuStore" where
  "useRegisterMenu_cleanup [] s = (None, s)"
| "useRegisterMenu_cleanup (route # rest) s =
     (case route_props_name route of
        Inl e \<Rightarrow> (Some e, s)
      | Inr k \<Rightarrow> useRegisterMenu_cleanup rest (removeMenu k s))"

text \<open>The filter of the second registration: \<open>item.element.props.noMenu !== true\<close>.\<close>

definition noMenu_filter :: "entry \<Rightarrow> bool" where
  "noMenu_filter item = (elem_prop (element item) ''noMenu'' \<noteq> Bool True)"

section \<open>The state holder and the hook\<close>

text \<open>
  React's \<open>useState\<close> on one state cell: the first render (\<open>None\<close>) stores
  and returns the initial state it is given; every later render returns the
  stored state and ignores its argument. The setter is not modelled: the hook
  never calls it.
\<close>

definition useState_cell :: "'s option \<Rightarrow> 's \<Rightarrow> 's \<times> 's option" where
  "useState_cell cell initialState =
     (case cell of None \<Rightarrow> (initialState, Some initialState) | Some v \<Rightarrow> (v, Some v))"

definition useRoutesAndResourcesState ::
    "RoutesAndResources \<Rightarrow> RoutesAndResources option
       \<Rightarrow> RoutesAndResources \<times> RoutesAndResources option" where
  "useRoutesAndResourcesState initialState cell = useState_cell cell initialState"

definition useRoutesAndResourcesFromChildren ::
    "ReactNode \<Rightarrow> RoutesAndResources option \<Rightarrow> RoutesAndResources \<times> RoutesAndResources option" where
  "useRoutesAndResourcesFromChildren children cell =
     useRoutesAndResourcesState (getRoutesAndResourceFromNodes children []) cell"

text \<open>
  The state after \<open>mergeRoutesAndResources\<close> is an object whose four arrays may
  hold arrays among their items, whatever the cast \<open>as RoutesAndResources\<close>
  says: \<open>[...previous.xs, newRoutesAndResources.xs]\<close> spreads the first array
  and puts the second in as one item.
\<close>

datatype 'a item = Item 'a | Nested "'a item list"

record mergedRoutesAndResources =
  customRoutesWithLayout_m :: "entry item list"
  customRoutesWithoutLayout_m :: "ReactNode item list"
  resources_m :: "entry item list"
  components_m :: "ReactNode item list"

definition as_items :: "RoutesAndResources \<Rightarrow> mergedRoutesAndResources" where
  "as_items r =
     \<lparr> customRoutesWithLayout_m = map Item (customRoutesWithLayout r),
       customRoutesWithoutLayout_m = map Item (customRoutesWithoutLayout r),
       resources_m = map Item (resources r),
       components_m = map Item (components r) \<rparr>"

text \<open>
  The state update of \<open>mergeRoutesAndResources\<close>: from \<open>previous\<close> and
  \<open>newRoutesAndResources\<close> to the new state.
\<close>

definition mergeRoutesAndResources ::
    "mergedRoutesAndResources \<Rightarrow> mergedRoutesAndResources \<Rightarrow> mergedRoutesAndResources" where
  "mergeRoutesAndResources previous newRoutesAndResources =
     \<lparr> customRoutesWithLayout_m =
         customRoutesWithLayout_m previous @ [Nested (customRoutesWithLayout_m newRoutesAndResources)],
       customRoutesWithoutLayout_m =
         customRoutesWithoutLayout_m previous
           @ [Nested (customRoutesWithoutLayout_m newRoutesAndResources)],
       resources_m = resources_m previous @ [Nested (resources_m newRoutesAndResources)],
       components_m = components_m previous @ [Nested (components_m newRoutesAndResources)] \<rparr>"

text \<open>
  Modelled from the spec: \<open>useWatch\<close> (hooks/useWatch), which is not among
  the sources, evaluates its callback when the hook mounts, and afterwards only
  when a watched value has changed. The hook watches fields of its state, which
  no render after the first changes, so the callbacks are evaluated on the
  mounting render only; \<open>cell\<close> is the state cell before the render.
\<close>

definition useWatch_evaluates :: "'s option \<Rightarrow> bool" where
  "useWatch_evaluates cell = (cell = None)"

text \<open>
  The object the hook returns, as the list of its properties, and the hook on
  one render: the state holder, the two \<open>useRegisterMenu\<close> calls, whose
  callbacks run in the order of the calls, and the returned object literal.
\<close>

datatype return_field = Entries "entry list" | Elements "ReactNode list"

definition useConfigureAdminRouterFromChildren ::
    "ReactNode \<Rightarrow> RoutesAndResources option \<Rightarrow> menuStore
       \<Rightarrow> (string \<times> return_field) list \<times> RoutesAndResources option \<times> menuStore" where
  "useConfigureAdminRouterFromChildren children cell s =
     (let (routesAndResources, cell') = useRoutesAndResourcesFromChildren children cell;
          s1 = (if useWatch_evaluates cell
                then fst (useRegisterMenu_effect (resources routesAndResources) (\<lambda>item. True) s)
                else s);
          s2 = (if useWatch_evaluates cell
                then fst (useRegisterMenu_effect (customRoutesWithLayout routesAndResources)
                            noMenu_filter s1)
                else s1)
      in ([(''customRoutesWithLayout'', Entries (customRoutesWithLayout routesAndResources)),
           (''customRoutesWithoutLayout'', Elements (customRoutesWithoutLayout routesAndResources)),
           (''resources'', Entries (resources routesAndResources)),
           (''components'', Elements (components routesAndResources))],
          cell', s2))"

section \<open>Example inputs\<close>

definition users_resource :: ReactNode where
  "users_resource = Element Resource [(''name'', Str ''users'')] NonElement"

definition posts_resource :: ReactNode where
  "posts_resource = Element Resource [(''name'', Str ''posts'')] NonElement"

definition about_route :: ReactNode where
  "about_route = Element CustomRoute [(''name'', Str ''about'')] NonElement"

definition login_route :: ReactNode where
  "login_route =
     Element CustomRoute [(''name'', Str ''login''), (''noLayout'', Bool True)] NonElement"

definition hidden_route :: ReactNode where
  "hidden_route =
     Element CustomRoute [(''name'', Str ''hidden''), (''noMenu'', Bool True)] NonElement"

definition namesake_route :: ReactNode where
  "namesake_route =
     Element CustomRoute [(''name'', Str ''users''), (''noMenu'', Bool True)] NonElement"

definition content_category :: ReactNode where
  "content_category =
     Element Category [(''name'', Str ''content'')]
       (NodeArray [Element Fragment [] posts_resource, about_route, login_route])"

definition example_tree :: ReactNode where
  "example_tree =
     NodeArray [users_resource, NonElement, content_category,
                Element (OtherType ''div'') [] NonElement]"

section \<open>The classifier and the traversal of the specification\<close>

lemma classified_Nil: "classified pth [] = no_routes"
  by (simp add: classified_def no_routes_def entries_at_def)

lemma classified_append: "classified pth (vs @ ws) = push_all (classified pth vs) (classified pth ws)"
  by (simp add: classified_def push_all_def entries_at_def)

lemma push_all_no_routes [simp]: "push_all no_routes r = r" "push_all r no_routes = r"
  by (simp_all add: push_all_def no_routes_def)

lemma push_all_assoc: "push_all (push_all a b) c = push_all a (push_all b c)"
  by (simp add: push_all_def)

lemma entries_at_shift:
  "entries_at pth P (map (\<lambda>(segs, e). (ps # segs, e)) vs) = entries_at (pth @ [ps]) P vs"
  by (induction vs) (auto simp: entries_at_def)

lemma classified_shift:
  "classified pth (map (\<lambda>(segs, e). (ps # segs, e)) vs) = classified (pth @ [ps]) vs"
  by (simp add: classified_def entries_at_shift comp_def case_prod_beta)

lemma classify_visits:
  "getRoutesAndResourceFromNodes n pth = classified pth (visits n)"
  "forEach_children ns pth acc = push_all acc (classified pth (concat (map visits ns)))"
proof (induction n pth and ns pth acc rule: getRoutesAndResourceFromNodes_forEach_children.induct)
  case (1 pth)
  then show ?case by (simp add: classified_Nil)
next
  case (2 ns pth)
  then show ?case by simp
next
  case (3 t ps ch pth)
  show ?case
  proof (cases t)
    case Fragment
    then show ?thesis using 3
      by (simp add: classified_def push_all_def no_routes_def entries_at_def
          is_resource_def is_route_with_layout_def is_route_without_layout_def)
  next
    case Category
    then show ?thesis using 3
      by (simp add: classified_append classified_shift)
         (simp add: classified_def push_all_def no_routes_def entries_at_def
          is_resource_def is_route_with_layout_def is_route_without_layout_def)
  next
    case CustomRoute
    then show ?thesis
      by (simp add: classified_def push_all_def no_routes_def entries_at_def
          is_resource_def is_route_with_layout_def is_route_without_layout_def)
  next
    case Resource
    then show ?thesis
      by (simp add: classified_def push_all_def no_routes_def entries_at_def
          is_resource_def is_route_with_layout_def is_route_without_layout_def)
  next
    case (OtherType x)
    then show ?thesis
      by (simp add: classified_def push_all_def no_routes_def entries_at_def
          is_resource_def is_route_with_layout_def is_route_without_layout_def)
  qed
next
  case (4 pth acc)
  then show ?case by (simp add: classified_Nil)
next
  case (5 n ns pth acc)
  then show ?case by (simp add: classified_append push_all_assoc)
qed


lemma visits_elements: "map snd (visits n) = visited_elements n"
  by (induction n) (auto simp: map_concat comp_def case_prod_beta intro!: arg_cong[where f=concat])

lemma entries_at_elements: "map element (entries_at pth P vs) = filter P (map snd vs)"
  by (induction vs) (auto simp: entries_at_def)

lemma count_list_filter: "count_list (filter P xs) e = (if P e then count_list xs e else 0)"
  by (induction xs) auto

lemma marker_cases:
  "(is_route_with_layout e \<or> is_route_without_layout e \<or> is_resource e)
     = (elem_type e = Some CustomRoute \<or> elem_type e = Some Resource)"
  "\<not> (is_route_with_layout e \<and> is_route_without_layout e)"
  "\<not> (is_route_with_layout e \<and> is_resource e)"
  "\<not> (is_route_without_layout e \<and> is_resource e)"
  by (auto simp: is_route_with_layout_def is_route_without_layout_def is_resource_def)


lemmas example_defs =
  users_resource_def posts_resource_def about_route_def login_route_def hidden_route_def
  namesake_route_def content_category_def example_tree_def

text \<open>
  C5. For every tree and starting path, the path of each resource entry and of
  each layout-wrapped route entry is the starting path followed by one segment
  per enclosing Category, outermost first, each segment being that Category's
  props without children; Fragments add nothing and the element itself adds
  nothing. The entries are those of the visited Resources, and of the visited
  CustomRoutes without \<open>noLayout\<close>, in visiting order.
\<close>

theorem recorded_path_is_enclosing_categories:
  "resources (getRoutesAndResourceFromNodes n pth) = entries_at pth is_resource (visits n)
   \<and> customRoutesWithLayout (getRoutesAndResourceFromNodes n pth)
       = entries_at pth is_route_with_layout (visits n)"
  by (simp add: classify_visits classified_def)

theorem recorded_path_is_enclosing_categories_witness:
  "resources (getRoutesAndResourceFromNodes example_tree [[(''name'', Str ''root'')]])
     = [\<lparr> path = [[(''name'', Str ''root'')]], element = users_resource \<rparr>,
        \<lparr> path = [[(''name'', Str ''root'')], [(''name'', Str ''content'')]],
          element = posts_resource \<rparr>]
   \<and> customRoutesWithLayout (getRoutesAndResourceFromNodes example_tree [[(''name'', Str ''root'')]])
     = [\<lparr> path = [[(''name'', Str ''root'')], [(''name'', Str ''content'')]],
          element = about_route \<rparr>]"
  using recorded_path_is_enclosing_categories [of example_tree "[[(''name'', Str ''root'')]]"]
  by (simp add: example_defs entries_at_def is_resource_def is_route_with_layout_def)

text \<open>
  C6. For every tree, the passthrough list is the list of the visited elements,
  each visit once and in visiting order; an element occurs in the three
  classified lists together as often as it is visited if it is a CustomRoute or
  a Resource (the marker types of the three lists), and not at all otherwise,
  which includes the Fragment and Category wrappers; and no element is in two
  of the three lists.
\<close>

theorem leaf_in_one_list_and_once_in_components:
  "components (getRoutesAndResourceFromNodes n pth) = visited_elements n
   \<and> (\<forall>e. count_list (map element (customRoutesWithLayout (getRoutesAndResourceFromNodes n pth))) e
          + count_list (customRoutesWithoutLayout (getRoutesAndResourceFromNodes n pth)) e
          + count_list (map element (resources (getRoutesAndResourceFromNodes n pth))) e
        = (if elem_type e = Some CustomRoute \<or> elem_type e = Some Resource
           then count_list (visited_elements n) e else 0))
   \<and> set (map element (customRoutesWithLayout (getRoutesAndResourceFromNodes n pth)))
         \<inter> set (customRoutesWithoutLayout (getRoutesAndResourceFromNodes n pth)) = {}
   \<and> set (map element (customRoutesWithLayout (getRoutesAndResourceFromNodes n pth)))
         \<inter> set (map element (resources (getRoutesAndResourceFromNodes n pth))) = {}
   \<and> set (customRoutesWithoutLayout (getRoutesAndResourceFromNodes n pth))
         \<inter> set (map element (resources (getRoutesAndResourceFromNodes n pth))) = {}"
proof -
  let ?r = "getRoutesAndResourceFromNodes n pth"
  let ?vs = "visited_elements n"
  have wl: "map element (customRoutesWithLayout ?r) = filter is_route_with_layout ?vs"
    by (simp add: classify_visits classified_def entries_at_elements visits_elements)
  have wol: "customRoutesWithoutLayout ?r = filter is_route_without_layout ?vs"
    by (simp add: classify_visits classified_def visits_elements)
  have res: "map element (resources ?r) = filter is_resource ?vs"
    by (simp add: classify_visits classified_def entries_at_elements visits_elements)
  have comp: "components ?r = ?vs"
    by (simp add: classify_visits classified_def visits_elements)
  have cnt: "count_list (map element (customRoutesWithLayout ?r)) e
          + count_list (customRoutesWithoutLayout ?r) e
          + count_list (map element (resources ?r)) e
        = (if elem_type e = Some CustomRoute \<or> elem_type e = Some Resource
           then count_list ?vs e else 0)" for e
    unfolding wl wol res count_list_filter
    using marker_cases [of e] by auto
  have d1: "set (map element (customRoutesWithLayout ?r)) \<inter> set (customRoutesWithoutLayout ?r) = {}"
    unfolding wl wol using marker_cases(2) by auto
  have d2: "set (map element (customRoutesWithLayout ?r)) \<inter> set (map element (resources ?r)) = {}"
    unfolding wl res using marker_cases(3) by auto
  have d3: "set (customRoutesWithoutLayout ?r) \<inter> set (map element (resources ?r)) = {}"
    unfolding wol res using marker_cases(4) by auto
  from comp cnt d1 d2 d3 show ?thesis by blast
qed


theorem leaf_in_one_list_and_once_in_components_witness:
  "components (getRoutesAndResourceFromNodes example_tree [])
     = [users_resource, posts_resource, Element Fragment [] posts_resource, about_route,
        login_route, content_category, Element (OtherType ''div'') [] NonElement]
   \<and> count_list (map element (customRoutesWithLayout (getRoutesAndResourceFromNodes example_tree []))) login_route
       + count_list (customRoutesWithoutLayout (getRoutesAndResourceFromNodes example_tree [])) login_route
       + count_list (map element (resources (getRoutesAndResourceFromNodes example_tree []))) login_route
     = 1"
  using leaf_in_one_list_and_once_in_components [of example_tree "[]"]
  by (simp add: example_defs)

text \<open>
  C7. A visited CustomRoute whose \<open>noLayout\<close> is truthy is in the layout-free
  list as the element itself and is the element of no layout-wrapped entry; a
  visited CustomRoute whose \<open>noLayout\<close> is not truthy is in the layout-wrapped
  list as the pair of its computed path and the element, and is not in the
  layout-free list.
\<close>

theorem noLayout_route_classification:
  assumes "(segs, e) \<in> set (visits n)" and "elem_type e = Some CustomRoute"
  shows "(truthy (elem_prop e ''noLayout'') \<longrightarrow>
           e \<in> set (customRoutesWithoutLayout (getRoutesAndResourceFromNodes n pth))
           \<and> e \<notin> element ` set (customRoutesWithLayout (getRoutesAndResourceFromNodes n pth)))
       \<and> (\<not> truthy (elem_prop e ''noLayout'') \<longrightarrow>
           \<lparr> path = pth @ segs, element = e \<rparr>
              \<in> set (customRoutesWithLayout (getRoutesAndResourceFromNodes n pth))
           \<and> e \<notin> set (customRoutesWithoutLayout (getRoutesAndResourceFromNodes n pth)))"
proof (intro conjI impI)
  assume t: "truthy (elem_prop e ''noLayout'')"
  show "e \<in> set (customRoutesWithoutLayout (getRoutesAndResourceFromNodes n pth))"
    using assms t by (force simp: classify_visits classified_def is_route_without_layout_def)
  show "e \<notin> element ` set (customRoutesWithLayout (getRoutesAndResourceFromNodes n pth))"
    using t by (auto simp: classify_visits classified_def entries_at_def is_route_with_layout_def)
next
  assume f: "\<not> truthy (elem_prop e ''noLayout'')"
  show "\<lparr> path = pth @ segs, element = e \<rparr>
          \<in> set (customRoutesWithLayout (getRoutesAndResourceFromNodes n pth))"
    using assms f by (force simp: classify_visits classified_def entries_at_def is_route_with_layout_def)
  show "e \<notin> set (customRoutesWithoutLayout (getRoutesAndResourceFromNodes n pth))"
    using f by (auto simp: classify_visits classified_def is_route_without_layout_def)
qed

theorem noLayout_route_classification_witness:
  "(login_route \<in> set (customRoutesWithoutLayout (getRoutesAndResourceFromNodes example_tree []))
    \<and> login_route \<notin> element ` set (customRoutesWithLayout (getRoutesAndResourceFromNodes example_tree [])))
   \<and> (\<lparr> path = [[(''name'', Str ''content'')]], element = about_route \<rparr>
        \<in> set (customRoutesWithLayout (getRoutesAndResourceFromNodes example_tree []))
      \<and> about_route \<notin> set (customRoutesWithoutLayout (getRoutesAndResourceFromNodes example_tree [])))"
proof -
  have v1: "([[(''name'', Str ''content'')]], login_route) \<in> set (visits example_tree)"
    by (simp add: example_defs)
  have v2: "([[(''name'', Str ''content'')]], about_route) \<in> set (visits example_tree)"
    by (simp add: example_defs)
  have t1: "elem_type login_route = Some CustomRoute" "truthy (elem_prop login_route ''noLayout'')"
    by (simp_all add: example_defs)
  have t2: "elem_type about_route = Some CustomRoute" "\<not> truthy (elem_prop about_route ''noLayout'')"
    by (simp_all add: example_defs)
  show ?thesis
    using noLayout_route_classification [OF v1 t1(1), of "[]"]
          noLayout_route_classification [OF v2 t2(1), of "[]"] t1(2) t2(2)
    by simp
qed

lemma from_heads:
  "x \<in> set (visited_positions_from k ms) \<Longrightarrow>
     \<exists>i r. x = Member i # r \<and> k \<le> i \<and> i < k + length ms \<and> r \<in> set (visited_positions (ms ! (i - k)))"
proof (induction ms arbitrary: k)
  case Nil
  then show ?case by simp
next
  case (Cons m ms)
  from Cons.prems consider
      (here) "x \<in> (#) (Member k) ` set (visited_positions m)"
    | (later) "x \<in> set (visited_positions_from (Suc k) ms)" by auto
  then show ?case
  proof cases
    case here
    then show ?thesis by auto
  next
    case later
    from Cons.IH[OF later] obtain i r where
      ir: "x = Member i # r" "Suc k \<le> i" "i < Suc k + length ms"
          "r \<in> set (visited_positions (ms ! (i - Suc k)))" by blast
    have "i - k = Suc (i - Suc k)" using ir(2) by simp
    then have "(m # ms) ! (i - k) = ms ! (i - Suc k)" by simp
    then show ?thesis using ir by auto
  qed
qed

lemma from_split:
  "i < length ms \<Longrightarrow>
     \<exists>A B. visited_positions_from k ms
             = A @ map ((#) (Member (k + i))) (visited_positions (ms ! i)) @ B"
proof (induction ms arbitrary: k i)
  case Nil
  then show ?case by simp
next
  case (Cons m ms)
  show ?case
  proof (cases i)
    case 0
    have "visited_positions_from k (m # ms)
        = [] @ map ((#) (Member (k + 0))) (visited_positions ((m # ms) ! 0))
            @ visited_positions_from (Suc k) ms" by simp
    then show ?thesis unfolding 0 by blast
  next
    case (Suc j)
    with Cons.prems have "j < length ms" by simp
    from Cons.IH[OF this, of "Suc k"] obtain A B where
      "visited_positions_from (Suc k) ms
         = A @ map ((#) (Member (Suc k + j))) (visited_positions (ms ! j)) @ B" by blast
    then have "visited_positions_from k (m # ms)
        = (map ((#) (Member k)) (visited_positions m) @ A)
            @ map ((#) (Member (k + i))) (visited_positions ((m # ms) ! i)) @ B"
      using Suc by simp
    then show ?thesis by blast
  qed
qed

lemma from_member:
  "(Member i # r \<in> set (visited_positions_from k ms))
     = (k \<le> i \<and> i < k + length ms \<and> r \<in> set (visited_positions (ms ! (i - k))))"
proof
  assume "Member i # r \<in> set (visited_positions_from k ms)"
  from from_heads[OF this] show "k \<le> i \<and> i < k + length ms \<and> r \<in> set (visited_positions (ms ! (i - k)))"
    by auto
next
  assume a: "k \<le> i \<and> i < k + length ms \<and> r \<in> set (visited_positions (ms ! (i - k)))"
  then have "i - k < length ms" by auto
  from from_split[OF this, of k] obtain A B where
    "visited_positions_from k ms
       = A @ map ((#) (Member (k + (i - k)))) (visited_positions (ms ! (i - k))) @ B" by blast
  then show "Member i # r \<in> set (visited_positions_from k ms)" using a by auto
qed

lemma positions_are_elements:
  "(p \<in> set (visited_positions n)) = is_element (node_at n p)"
proof (induction n arbitrary: p)
  case NonElement
  then show ?case by (cases p) auto
next
  case (NodeArray ns)
  show ?case
  proof (cases p)
    case Nil
    have "[] \<notin> set (visited_positions_from 0 ns)" using from_heads by blast
    then show ?thesis using Nil by simp
  next
    case (Cons s r)
    show ?thesis
    proof (cases s)
      case (Member i)
      show ?thesis
      proof (cases "i < length ns")
        case True
        then have "ns ! i \<in> set ns" by simp
        from NodeArray[OF this] show ?thesis using Cons Member True by (simp add: from_member)
      next
        case False
        then show ?thesis using Cons Member by (simp add: from_member)
      qed
    next
      case Child
      have "Child # r \<notin> set (visited_positions_from 0 ns)" using from_heads by blast
      then show ?thesis using Cons Child by simp
    qed
  qed
next
  case (Element t ps ch)
  show ?case
  proof (cases p)
    case Nil
    then show ?thesis by simp
  next
    case (Cons s r)
    then show ?thesis using Element by (cases s) auto
  qed
qed


lemma from_nodes:
  assumes "\<forall>m \<in> set ms. map (\<lambda>p. the (node_at m p)) (visited_positions m) = visited_elements m"
  shows "map (\<lambda>p. the (node_at (NodeArray (pre @ ms)) p)) (visited_positions_from (length pre) ms)
           = concat (map visited_elements ms)"
  using assms
proof (induction ms arbitrary: pre)
  case Nil
  then show ?case by simp
next
  case (Cons m ms)
  have first: "map (\<lambda>p. the (node_at (NodeArray (pre @ m # ms)) p))
                 (map ((#) (Member (length pre))) (visited_positions m)) = visited_elements m"
    using Cons.prems by (simp add: comp_def)
  have "map (\<lambda>p. the (node_at (NodeArray ((pre @ [m]) @ ms)) p))
            (visited_positions_from (length (pre @ [m])) ms) = concat (map visited_elements ms)"
    using Cons.prems by (intro Cons.IH) simp
  then have rest: "map (\<lambda>p. the (node_at (NodeArray (pre @ m # ms)) p))
            (visited_positions_from (Suc (length pre)) ms) = concat (map visited_elements ms)"
    by simp
  show ?case using first rest by simp
qed

lemma positions_elements:
  "map (\<lambda>p. the (node_at n p)) (visited_positions n) = visited_elements n"
proof (induction n)
  case NonElement
  then show ?case by simp
next
  case (NodeArray ns)
  then have "\<forall>m \<in> set ns. map (\<lambda>p. the (node_at m p)) (visited_positions m) = visited_elements m"
    by blast
  from from_nodes[OF this, of "[]"] show ?case by simp
next
  case (Element t ps ch)
  then show ?case by (simp add: comp_def)
qed

lemma from_distinct:
  assumes "\<forall>m \<in> set ms. distinct (visited_positions m)"
  shows "distinct (visited_positions_from k ms)"
  using assms
proof (induction ms arbitrary: k)
  case Nil
  then show ?case by simp
next
  case (Cons m ms)
  have d1: "distinct (map ((#) (Member k)) (visited_positions m))"
    using Cons.prems by (simp add: distinct_map inj_on_def)
  have d2: "distinct (visited_positions_from (Suc k) ms)"
    using Cons.prems by (intro Cons.IH) simp
  have "Member k # r \<notin> set (visited_positions_from (Suc k) ms)" for r
    by (simp add: from_member)
  then have d3: "set (map ((#) (Member k)) (visited_positions m))
                   \<inter> set (visited_positions_from (Suc k) ms) = {}"
    by auto
  show ?case using d1 d2 d3 by simp
qed

lemma positions_distinct: "distinct (visited_positions n)"
proof (induction n)
  case NonElement
  then show ?case by simp
next
  case (NodeArray ns)
  then show ?case by (simp add: from_distinct)
next
  case (Element t ps ch)
  then show ?case by (auto simp: distinct_map inj_on_def)
qed

lemma descendant_before_wrapper:
  "p \<in> set (visited_positions n) \<Longrightarrow> p @ q \<in> set (visited_positions n) \<Longrightarrow> q \<noteq> [] \<Longrightarrow>
     \<exists>as bs cs. visited_positions n = as @ (p @ q) # bs @ p # cs"
proof (induction n arbitrary: p)
  case NonElement
  then show ?case by simp
next
  case (NodeArray ns)
  from NodeArray.prems(1) have "p \<in> set (visited_positions_from 0 ns)" by simp
  from from_heads[OF this] obtain i r where
    ir: "p = Member i # r" "i < length ns" "r \<in> set (visited_positions (ns ! i))" by auto
  from NodeArray.prems(2) ir(1) have rq: "r @ q \<in> set (visited_positions (ns ! i))"
    by (simp add: from_member)
  have "ns ! i \<in> set ns" using ir(2) by simp
  from NodeArray.IH[OF this ir(3) rq NodeArray.prems(3)] obtain as bs cs where
    sp: "visited_positions (ns ! i) = as @ (r @ q) # bs @ r # cs" by blast
  from from_split[OF ir(2), of 0] obtain A B where
    "visited_positions_from 0 ns = A @ map ((#) (Member i)) (visited_positions (ns ! i)) @ B"
    by auto
  then have "visited_positions (NodeArray ns)
      = (A @ map ((#) (Member i)) as) @ (p @ q) # map ((#) (Member i)) bs
          @ p # (map ((#) (Member i)) cs @ B)"
    using sp ir(1) by simp
  then show ?case by blast
next
  case (Element t ps ch)
  show ?case
  proof (cases p)
    case Nil
    with Element.prems have "q \<in> set (map ((#) Child) (visited_positions ch))"
      by (auto split: if_splits)
    then obtain as bs where "map ((#) Child) (visited_positions ch) = as @ q # bs"
      by (meson split_list)
    moreover from Element.prems Nil have "t = Fragment \<or> t = Category"
      by (auto split: if_splits)
    ultimately have "visited_positions (Element t ps ch) = as @ (p @ q) # bs @ p # []"
      using Nil by simp
    then show ?thesis by blast
  next
    case (Cons s r)
    with Element.prems(1) have w: "t = Fragment \<or> t = Category" and s: "s = Child"
      and r: "r \<in> set (visited_positions ch)"
      by (auto split: if_splits)
    from Element.prems(2) Cons s w have rq: "r @ q \<in> set (visited_positions ch)" by auto
    from Element.IH[OF r rq Element.prems(3)] obtain as bs cs where
      "visited_positions ch = as @ (r @ q) # bs @ r # cs" by blast
    then have "visited_positions (Element t ps ch)
        = map ((#) Child) as @ (p @ q) # map ((#) Child) bs @ p # (map ((#) Child) cs @ [[]])"
      using w Cons s by simp
    then show ?thesis by blast
  qed
qed

lemma split_indices:
  assumes "xs = as @ x # bs @ y # cs"
  shows "\<exists>i j. i < j \<and> j < length xs \<and> xs ! i = x \<and> xs ! j = y"
proof -
  have "length as < length as + Suc (length bs)" by simp
  moreover have "length as + Suc (length bs) < length xs" using assms by simp
  moreover have "xs ! length as = x" using assms by simp
  moreover have "xs ! (length as + Suc (length bs)) = y"
    using assms by (simp add: nth_append)
  ultimately show ?thesis by blast
qed

lemma components_visited:
  "components (getRoutesAndResourceFromNodes n pth) = visited_elements n"
  by (simp add: classify_visits classified_def visits_elements)

text \<open>
  C9. Entry \<open>i\<close> of the passthrough list is the element at the \<open>i\<close>-th
  visited position, the visited positions are pairwise different and are all the
  positions of elements the walk reaches: every entry is contributed by exactly
  one occurrence. For every occurrence of a Fragment or Category and every
  occurrence of an element below it, the entry of the descendant has a lower
  index in the passthrough list than the entry of the wrapper.
\<close>

theorem wrapper_after_its_descendants:
  "components (getRoutesAndResourceFromNodes n pth)
     = map (\<lambda>p. the (node_at n p)) (visited_positions n)
   \<and> distinct (visited_positions n)
   \<and> set (visited_positions n) = {p. is_element (node_at n p)}
   \<and> (\<forall>p q t ps ch.
        node_at n p = Some (Element t ps ch) \<and> (t = Fragment \<or> t = Category)
        \<and> q \<noteq> [] \<and> is_element (node_at n (p @ q))
        \<longrightarrow> (\<exists>i j. i < j \<and> j < length (components (getRoutesAndResourceFromNodes n pth))
                 \<and> visited_positions n ! i = p @ q \<and> visited_positions n ! j = p
                 \<and> components (getRoutesAndResourceFromNodes n pth) ! i = the (node_at n (p @ q))
                 \<and> components (getRoutesAndResourceFromNodes n pth) ! j = Element t ps ch))"
proof (intro conjI allI impI)
  let ?cs = "components (getRoutesAndResourceFromNodes n pth)"
  let ?vp = "visited_positions n"
  show c: "?cs = map (\<lambda>p. the (node_at n p)) ?vp"
    by (simp add: components_visited positions_elements)
  show "distinct ?vp" by (rule positions_distinct)
  show "set ?vp = {p. is_element (node_at n p)}"
    using positions_are_elements by blast
  fix p q t ps ch
  assume a: "node_at n p = Some (Element t ps ch) \<and> (t = Fragment \<or> t = Category)
        \<and> q \<noteq> [] \<and> is_element (node_at n (p @ q))"
  then have "p \<in> set ?vp" "p @ q \<in> set ?vp"
    by (simp_all add: positions_are_elements)
  from descendant_before_wrapper[OF this] a obtain as bs cs where
    "?vp = as @ (p @ q) # bs @ p # cs" by blast
  from split_indices[OF this] obtain i j where
    ij: "i < j" "j < length ?vp" "?vp ! i = p @ q" "?vp ! j = p" by blast
  have len: "length ?cs = length ?vp" by (simp only: c length_map)
  have il: "i < length ?vp" using ij(1,2) by simp
  have ci: "?cs ! i = the (node_at n (p @ q))"
    by (simp only: c nth_map [OF il] ij(3))
  have cj: "?cs ! j = Element t ps ch"
    using a by (simp only: c nth_map [OF ij(2)] ij(4)) simp
  from ij len ci cj
  show "\<exists>i j. i < j \<and> j < length ?cs \<and> ?vp ! i = p @ q \<and> ?vp ! j = p
           \<and> ?cs ! i = the (node_at n (p @ q)) \<and> ?cs ! j = Element t ps ch"
    by auto
qed

theorem wrapper_after_its_descendants_witness:
  "\<exists>i j. i < j \<and> j < length (components (getRoutesAndResourceFromNodes example_tree []))
      \<and> components (getRoutesAndResourceFromNodes example_tree []) ! i = posts_resource
      \<and> components (getRoutesAndResourceFromNodes example_tree []) ! j = content_category"
proof -
  let ?cs = "components (getRoutesAndResourceFromNodes example_tree [])"
  let ?ch = "NodeArray [Element Fragment [] posts_resource, about_route, login_route]"
  have h1: "node_at example_tree [Member 2]
              = Some (Element Category [(''name'', Str ''content'')] ?ch)"
    by (simp add: example_tree_def content_category_def)
  have h2: "node_at example_tree ([Member 2] @ [Child, Member 0, Child]) = Some posts_resource"
    by (simp add: example_tree_def content_category_def)
  have h3: "is_element (Some posts_resource)"
    by (simp add: posts_resource_def)
  have h: "node_at example_tree [Member 2]
              = Some (Element Category [(''name'', Str ''content'')] ?ch)
           \<and> (Category = Fragment \<or> Category = Category)
           \<and> [Child, Member 0, Child] \<noteq> []
           \<and> is_element (node_at example_tree ([Member 2] @ [Child, Member 0, Child]))"
    unfolding h2 using h1 h3 by simp
  note d = wrapper_after_its_descendants
             [of example_tree "[]", THEN conjunct2, THEN conjunct2, THEN conjunct2,
              rule_format, OF h]
  from d obtain i j where ij: "i < j" "j < length ?cs"
    "?cs ! i = the (node_at example_tree ([Member 2] @ [Child, Member 0, Child]))"
    "?cs ! j = Element Category [(''name'', Str ''content'')] ?ch"
    by (elim exE conjE)
  have pi: "?cs ! i = posts_resource" by (simp only: ij(3) h2 option.sel)
  have pj: "?cs ! j = content_category" by (simp only: ij(4) content_category_def)
  from ij(1,2) pi pj show ?thesis by (intro exI conjI)
qed

section \<open>The path array is only read\<close>

lemma heap_grows:
  "\<exists>ext. snd (getRoutesAndResourceFromNodes_heap n a h) = h @ ext"
  "\<exists>ext. snd (forEach_children_heap ns a acc h) = h @ ext"
proof (induction n a h and ns a acc h rule: getRoutesAndResourceFromNodes_heap_forEach_children_heap.induct)
  case (3 t ps ch a h)
  show ?case
  proof (cases "t = Fragment")
    case True
    then show ?thesis using 3(1) by (auto simp: Let_def split: prod.splits)
  next
    case nf: False
    show ?thesis
    proof (cases "t = Category")
      case True
      from 3(2)[of no_routes_ref "(no_routes_ref, h)" no_routes_ref h] nf True
      obtain ext where "snd (getRoutesAndResourceFromNodes_heap ch (length h) (h @ [h ! a @ [ps]]))
          = (h @ [h ! a @ [ps]]) @ ext" by auto
      then show ?thesis using True by (auto simp: Let_def split: prod.splits)
    next
      case False
      then show ?thesis using nf by (simp add: Let_def)
    qed
  qed
next
  case (5 n ns a acc h)
  obtain r h' where rh: "getRoutesAndResourceFromNodes_heap n a h = (r, h')" by (cases "getRoutesAndResourceFromNodes_heap n a h")
  from 5(1) rh obtain e1 where e1: "h' = h @ e1" by auto
  from 5(2)[OF rh[symmetric]] obtain e2 where "snd (forEach_children_heap ns a (push_all_ref acc r) h') = h' @ e2" by blast
  then show ?case using rh e1 by simp
qed simp_all

lemma refs_ok_no_routes [simp]: "refs_ok h no_routes_ref"
  by (simp add: refs_ok_def no_routes_ref_def)

lemma deref_no_routes [simp]: "deref h no_routes_ref = no_routes"
  by (simp add: deref_def no_routes_ref_def no_routes_def)

lemma refs_ok_ext: "refs_ok h r \<Longrightarrow> refs_ok (h @ ext) r"
  by (auto simp: refs_ok_def intro: trans_less_add1)

lemma deref_ext: "refs_ok h r \<Longrightarrow> deref (h @ ext) r = deref h r"
  by (auto simp: refs_ok_def deref_def deref_entry_def nth_append)

lemma refs_ok_push_all: "refs_ok h (push_all_ref x y) = (refs_ok h x \<and> refs_ok h y)"
  by (auto simp: refs_ok_def push_all_ref_def)

lemma deref_push_all: "deref h (push_all_ref x y) = push_all (deref h x) (deref h y)"
  by (simp add: deref_def push_all_ref_def push_all_def)

lemma heap_refines:
  "a < length h \<Longrightarrow>
     refs_ok (snd (getRoutesAndResourceFromNodes_heap n a h)) (fst (getRoutesAndResourceFromNodes_heap n a h))
     \<and> deref (snd (getRoutesAndResourceFromNodes_heap n a h)) (fst (getRoutesAndResourceFromNodes_heap n a h))
         = getRoutesAndResourceFromNodes n (h ! a)"
  "a < length h \<Longrightarrow> refs_ok h acc \<Longrightarrow>
     refs_ok (snd (forEach_children_heap ns a acc h)) (fst (forEach_children_heap ns a acc h))
     \<and> deref (snd (forEach_children_heap ns a acc h)) (fst (forEach_children_heap ns a acc h))
         = forEach_children ns (h ! a) (deref h acc)"
proof (induction n a h and ns a acc h rule: getRoutesAndResourceFromNodes_heap_forEach_children_heap.induct)
  case (1 a h)
  then show ?case by simp
next
  case (2 ns a h)
  then show ?case by simp
next
  case (3 t ps ch a h)
  let ?e = "Element t ps ch"
  show ?case
  proof (cases t)
    case Fragment
    obtain r h' where rh: "getRoutesAndResourceFromNodes_heap ch a h = (r, h')"
      by (cases "getRoutesAndResourceFromNodes_heap ch a h")
    from 3(1)[OF refl Fragment 3(3)] rh
    have ih: "refs_ok h' r" "deref h' r = getRoutesAndResourceFromNodes ch (h ! a)" by simp_all
    have res: "getRoutesAndResourceFromNodes_heap ?e a h
        = (r \<lparr> components_ref := components_ref r @ [?e] \<rparr>, h')"
      using Fragment rh by (simp add: push_all_ref_def no_routes_ref_def)
    have pure: "getRoutesAndResourceFromNodes ?e (h ! a)
        = (getRoutesAndResourceFromNodes ch (h ! a))
            \<lparr> components := components (getRoutesAndResourceFromNodes ch (h ! a)) @ [?e] \<rparr>"
      using Fragment by (simp add: push_all_def no_routes_def)
    show ?thesis unfolding res pure ih(2)[symmetric] using ih(1)
      by (simp add: refs_ok_def deref_def)
  next
    case Category
    let ?h1 = "h @ [h ! a @ [ps]]"
    obtain r h' where rh: "getRoutesAndResourceFromNodes_heap ch (length h) ?h1 = (r, h')"
      by (cases "getRoutesAndResourceFromNodes_heap ch (length h) ?h1")
    from 3(2)[of no_routes_ref "(no_routes_ref, h)" no_routes_ref h] Category rh
    have ih: "refs_ok h' r" "deref h' r = getRoutesAndResourceFromNodes ch (h ! a @ [ps])" by simp_all
    have res: "getRoutesAndResourceFromNodes_heap ?e a h
        = (r \<lparr> components_ref := components_ref r @ [?e] \<rparr>, h')"
      using Category rh by (simp add: push_all_ref_def no_routes_ref_def)
    have pure: "getRoutesAndResourceFromNodes ?e (h ! a)
        = (getRoutesAndResourceFromNodes ch (h ! a @ [ps]))
            \<lparr> components := components (getRoutesAndResourceFromNodes ch (h ! a @ [ps])) @ [?e] \<rparr>"
      using Category by (simp add: push_all_def no_routes_def)
    show ?thesis unfolding res pure ih(2)[symmetric] using ih(1)
      by (simp add: refs_ok_def deref_def)
  next
    case CustomRoute
    then show ?thesis using 3(3)
      by (simp add: Let_def refs_ok_def deref_def deref_entry_def no_routes_ref_def no_routes_def)
  next
    case Resource
    then show ?thesis using 3(3)
      by (simp add: Let_def refs_ok_def deref_def deref_entry_def no_routes_ref_def no_routes_def)
  next
    case (OtherType x)
    then show ?thesis
      by (simp add: Let_def refs_ok_def deref_def deref_entry_def no_routes_ref_def no_routes_def)
  qed
next
  case (4 a acc h)
  then show ?case by simp
next
  case (5 n ns a acc h)
  obtain r h' where rh: "getRoutesAndResourceFromNodes_heap n a h = (r, h')"
    by (cases "getRoutesAndResourceFromNodes_heap n a h")
  from heap_grows(1)[of n a h] rh obtain ext where ext: "h' = h @ ext" by auto
  from 5(1)[OF 5(3)] rh
  have ih1: "refs_ok h' r" "deref h' r = getRoutesAndResourceFromNodes n (h ! a)" by simp_all
  have a': "a < length h'" "h' ! a = h ! a" using 5(3) ext by (simp_all add: nth_append)
  have ok: "refs_ok h' (push_all_ref acc r)"
    using ih1(1) 5(4) ext by (simp add: refs_ok_push_all refs_ok_ext)
  from 5(2)[OF rh[symmetric] a'(1) ok]
  have ih2: "refs_ok (snd (forEach_children_heap ns a (push_all_ref acc r) h'))
                (fst (forEach_children_heap ns a (push_all_ref acc r) h'))"
    "deref (snd (forEach_children_heap ns a (push_all_ref acc r) h'))
           (fst (forEach_children_heap ns a (push_all_ref acc r) h'))
       = forEach_children ns (h' ! a) (deref h' (push_all_ref acc r))" by simp_all
  have "deref h' (push_all_ref acc r) = push_all (deref h acc) (getRoutesAndResourceFromNodes n (h ! a))"
    using ih1(2) 5(4) ext by (simp add: deref_push_all deref_ext)
  then show ?case using ih2 rh a'(2) by simp
qed

text \<open>
  C10. With the path arrays on a heap, a call of the classifier on a valid path
  address leaves the array at that address, and every array allocated before
  the call, as it was: the call only allocates.
\<close>

theorem path_argument_not_mutated:
  assumes "a < length h"
  shows "snd (getRoutesAndResourceFromNodes_heap n a h) ! a = h ! a
       \<and> take (length h) (snd (getRoutesAndResourceFromNodes_heap n a h)) = h"
proof -
  from heap_grows(1) [of n a h] obtain ext
    where "snd (getRoutesAndResourceFromNodes_heap n a h) = h @ ext" by blast
  then show ?thesis using assms by (simp add: nth_append)
qed

theorem path_argument_not_mutated_witness:
  "(0::nat) < length [[[(''name'', Str ''root'')]]]
   \<and> snd (getRoutesAndResourceFromNodes_heap example_tree 0 [[[(''name'', Str ''root'')]]]) ! 0
       = [[(''name'', Str ''root'')]]"
proof -
  have h: "(0::nat) < length [[[(''name'', Str ''root'')]]]" by simp
  show ?thesis using path_argument_not_mutated [OF h, of example_tree] by simp
qed

section \<open>The registrar, the state holder and the hook\<close>



lemma hook_mount:
  "useConfigureAdminRouterFromChildren children None s =
     (let rr = getRoutesAndResourceFromNodes children [] in
      ([(''customRoutesWithLayout'', Entries (customRoutesWithLayout rr)),
        (''customRoutesWithoutLayout'', Elements (customRoutesWithoutLayout rr)),
        (''resources'', Entries (resources rr)),
        (''components'', Elements (components rr))],
       Some rr,
       fst (useRegisterMenu_effect (customRoutesWithLayout rr) noMenu_filter
             (fst (useRegisterMenu_effect (resources rr) (\<lambda>item. True) s)))))"
  by (simp add: useConfigureAdminRouterFromChildren_def useRoutesAndResourcesFromChildren_def
      useRoutesAndResourcesState_def useState_cell_def useWatch_evaluates_def Let_def)








text \<open>
  C1. The cleanup of the registrar is to remove the records keyed by the names
  of the filtered entries of the evaluation that returned it. On the code it
  reads \<open>route.props.name\<close>, where the effect read
  \<open>route.element.props.name\<close>: after registering the resources "users" and
  "posts" the cleanup throws a TypeError at the first entry and both records
  stay in the store.
\<close>

theorem useRegisterMenu_cleanup_throws:
  "dom (fst (useRegisterMenu_effect
              [\<lparr> path = [], element = users_resource \<rparr>, \<lparr> path = [], element = posts_resource \<rparr>]
              (\<lambda>item. True) Map.empty))
     = {Str ''users'', Str ''posts''}
   \<and> useRegisterMenu_cleanup
        (snd (useRegisterMenu_effect
              [\<lparr> path = [], element = users_resource \<rparr>, \<lparr> path = [], element = posts_resource \<rparr>]
              (\<lambda>item. True) Map.empty))
        (fst (useRegisterMenu_effect
              [\<lparr> path = [], element = users_resource \<rparr>, \<lparr> path = [], element = posts_resource \<rparr>]
              (\<lambda>item. True) Map.empty))
     = (Some TypeError,
        fst (useRegisterMenu_effect
              [\<lparr> path = [], element = users_resource \<rparr>, \<lparr> path = [], element = posts_resource \<rparr>]
              (\<lambda>item. True) Map.empty))"
  by (auto simp: useRegisterMenu_effect_def Let_def addMenu_def menu_of_def example_defs
      route_props_name_def entry_get_def)

text \<open>
  C2. Merging is to append the lists of the second classification to those of
  the first, item by item. On the code each merged list is the first list
  followed by one item, the second list itself: merging the classification of
  the resource "posts" into that of the resource "users" gives a resource list
  of two items, the entry of "users" and an array.
\<close>

theorem mergeRoutesAndResources_nests:
  "resources_m (mergeRoutesAndResources
                  (as_items (getRoutesAndResourceFromNodes users_resource []))
                  (as_items (getRoutesAndResourceFromNodes posts_resource [])))
     = [Item \<lparr> path = [], element = users_resource \<rparr>,
        Nested [Item \<lparr> path = [], element = posts_resource \<rparr>]]
   \<and> resources_m (mergeRoutesAndResources
                  (as_items (getRoutesAndResourceFromNodes users_resource []))
                  (as_items (getRoutesAndResourceFromNodes posts_resource [])))
     \<noteq> map Item (resources (getRoutesAndResourceFromNodes users_resource [])
                   @ resources (getRoutesAndResourceFromNodes posts_resource []))"
  by (simp add: mergeRoutesAndResources_def as_items_def example_defs Let_def no_routes_def)

text \<open>
  C3. The state holder is to return the classification of the current children
  whenever the children change. On the code the classification of a later
  render is only the initial-state argument of \<open>useState\<close>, which is ignored
  after the first render: rendering with the resource "users" and then with the
  resource "posts" returns the classification of "users" both times.
\<close>

theorem useRoutesAndResourcesFromChildren_keeps_first_tree:
  "fst (useRoutesAndResourcesFromChildren posts_resource
          (snd (useRoutesAndResourcesFromChildren users_resource None)))
     = getRoutesAndResourceFromNodes users_resource []
   \<and> fst (useRoutesAndResourcesFromChildren posts_resource
          (snd (useRoutesAndResourcesFromChildren users_resource None)))
     \<noteq> getRoutesAndResourceFromNodes posts_resource []"
  by (simp add: useRoutesAndResourcesFromChildren_def useRoutesAndResourcesState_def
      useState_cell_def example_defs Let_def no_routes_def)

text \<open>
  C4. The hook is to return a status, "loading", "empty" or "ready", with the
  four lists. On the code the returned object has the four lists as its only
  properties, with children that hold a resource and with none alike; it has no
  property \<open>status\<close>.
\<close>

theorem useConfigureAdminRouterFromChildren_no_status:
  "map fst (fst (useConfigureAdminRouterFromChildren users_resource None Map.empty))
     = [''customRoutesWithLayout'', ''customRoutesWithoutLayout'', ''resources'', ''components'']
   \<and> map_of (fst (useConfigureAdminRouterFromChildren users_resource None Map.empty)) ''status''
       = None
   \<and> map_of (fst (useConfigureAdminRouterFromChildren NonElement None Map.empty)) ''status''
       = None"
  by (simp add: hook_mount Let_def)

end
